theory Spec2Isabelle
  imports Complex_Main
begin

section \<open>The document tree and the host's queries\<close>

text \<open>
  A DOM node is a tree. An element carries a number that stands for its object identity,
  its tag name, its class list and its children; text and comment nodes have no children.
  Every element of the model is an HTMLElement (the model has no SVG or MathML elements).
\<close>

datatype node =
    Element nat string "string list" "node list"
  | Text string
  | Comment string

definition ELEMENT_NODE :: nat where
  "ELEMENT_NODE = 1"

fun nodeType :: "node \<Rightarrow> nat" where
  "nodeType (Element i t cs ks) = 1"
| "nodeType (Text s) = 3"
| "nodeType (Comment s) = 8"

text \<open>
  The selector is opaque to the program: \<open>node.matches(selector)\<close> is the host's
  selector engine, a parameter \<open>mt\<close> of every function below. A selector the host
  rejects as malformed is outside the model.
\<close>

type_synonym engine = "string \<Rightarrow> node \<Rightarrow> bool"

text \<open>The proper descendants of a node, in tree order (preorder, depth first).\<close>

fun descendants :: "node \<Rightarrow> node list" where
  "descendants (Element i t cs ks) = concat (map (\<lambda>k. k # descendants k) ks)"
| "descendants (Text s) = []"
| "descendants (Comment s) = []"

text \<open>
  \<open>node.querySelectorAll(selector)\<close>: the element descendants of the node that match,
  in tree order; \<open>node.querySelector(selector)\<close>: the first of them, or null.
\<close>

definition querySelectorAll :: "engine \<Rightarrow> string \<Rightarrow> node \<Rightarrow> node list" where
  "querySelectorAll mt sel n =
     filter (\<lambda>d. nodeType d = ELEMENT_NODE \<and> mt sel d) (descendants n)"

definition querySelector :: "engine \<Rightarrow> string \<Rightarrow> node \<Rightarrow> node option" where
  "querySelector mt sel n =
     List.find (\<lambda>d. nodeType d = ELEMENT_NODE \<and> mt sel d) (descendants n)"

text \<open>
  \<open>document.querySelector(selector)\<close>: the document is given by its root element, and
  the query covers the root and all its descendants.
\<close>

definition document_querySelector :: "engine \<Rightarrow> string \<Rightarrow> node \<Rightarrow> node option" where
  "document_querySelector mt sel doc =
     List.find (\<lambda>d. nodeType d = ELEMENT_NODE \<and> mt sel d) (doc # descendants doc)"

text \<open>
  A selector engine for the two simplest selector forms, \<open>.class\<close> and \<open>tag\<close>, on which
  the scenarios below are run.
\<close>

fun simple_matches :: engine where
  "simple_matches (c # cls) (Element i t cs ks) =
     (if c = CHR ''.'' then cls \<in> set cs else c # cls = t)"
| "simple_matches sel n = False"

section \<open>Mutation records and the observer\<close>

text \<open>
  A mutation record of the host. Only a \<open>childList\<close> record has added or removed nodes.
  The nodes of a record are the trees the handler sees when it runs.
\<close>

datatype mutation =
    ChildListRecord "node list" "node list"
  | AttributesRecord string
  | CharacterDataRecord

fun mtype :: "mutation \<Rightarrow> string" where
  "mtype (ChildListRecord added removed) = ''childList''"
| "mtype (AttributesRecord a) = ''attributes''"
| "mtype CharacterDataRecord = ''characterData''"

fun addedNodes :: "mutation \<Rightarrow> node list" where
  "addedNodes (ChildListRecord added removed) = added"
| "addedNodes (AttributesRecord a) = []"
| "addedNodes CharacterDataRecord = []"

text \<open>A value passed as \<open>targetNode\<close>: null, a string, or a node with its \<open>isConnected\<close>.\<close>

datatype jsvalue =
    Null
  | Str string
  | NodeRef node bool

datatype log_entry =
    ConsoleError string
  | ConsoleLog string jsvalue

text \<open>
  The state a watch acts on: whether its MutationObserver is registered on the target,
  the observer's record queue, the elements the callback was invoked with (in order), and
  the console. The callback is modelled by the trace of its invocations.
\<close>

record world =
  observing :: bool
  pending :: "mutation list"
  calls :: "node list"
  console :: "log_entry list"

definition callback :: "node \<Rightarrow> world \<Rightarrow> world" where
  "callback n w = w\<lparr>calls := calls w @ [n]\<rparr>"

text \<open>\<open>observer.observe\<close>, \<open>observer.disconnect\<close> (which also empties the record queue)
  and \<open>observer.takeRecords\<close> (which returns the queue and empties it).\<close>

definition observe :: "world \<Rightarrow> world" where
  "observe w = w\<lparr>observing := True\<rparr>"

definition disconnect :: "world \<Rightarrow> world" where
  "disconnect w = w\<lparr>observing := False, pending := []\<rparr>"

definition takeRecords :: "world \<Rightarrow> mutation list \<times> world" where
  "takeRecords w = (pending w, w\<lparr>pending := []\<rparr>)"

section \<open>onNewElement\<close>

text \<open>The handler either goes on with the next node or returns from the whole handler.\<close>

datatype 'a flow = Continue 'a | Return 'a

text \<open>The body of the loop over \<open>mutation.addedNodes\<close>, for one node.\<close>

definition visit_node :: "engine \<Rightarrow> string \<Rightarrow> bool \<Rightarrow> node \<Rightarrow> world \<Rightarrow> world flow" where
  "visit_node mt sel stopOnFirstFind n w =
     (if nodeType n = ELEMENT_NODE then
        (case (if mt sel n then
                 (if stopOnFirstFind then Return (disconnect (callback n w))
                  else Continue (callback n w))
               else Continue w) of
           Return w' \<Rightarrow> Return w'
         | Continue w1 \<Rightarrow>
             (if stopOnFirstFind then
                (case querySelector mt sel n of
                   Some matchingDescendant \<Rightarrow>
                     Return (disconnect (callback matchingDescendant w1))
                 | None \<Rightarrow> Continue w1)
              else Continue (foldl (\<lambda>a descendant. callback descendant a) w1
                               (querySelectorAll mt sel n))))
      else Continue w)"

fun visit_nodes :: "engine \<Rightarrow> string \<Rightarrow> bool \<Rightarrow> node list \<Rightarrow> world \<Rightarrow> world flow" where
  "visit_nodes mt sel stopOnFirstFind [] w = Continue w"
| "visit_nodes mt sel stopOnFirstFind (n # ns) w =
     (case visit_node mt sel stopOnFirstFind n w of
        Return w' \<Rightarrow> Return w'
      | Continue w' \<Rightarrow> visit_nodes mt sel stopOnFirstFind ns w')"

text \<open>
  The function given to the MutationObserver: the loop over \<open>mutationsList\<close>. After each
  record, when \<open>stopOnFirstFind\<close> is set, it takes the pending records and returns when
  there are none.
\<close>

fun observer_callback :: "engine \<Rightarrow> string \<Rightarrow> bool \<Rightarrow> mutation list \<Rightarrow> world \<Rightarrow> world" where
  "observer_callback mt sel stopOnFirstFind [] w = w"
| "observer_callback mt sel stopOnFirstFind (m # ms) w =
     (case (if mtype m = ''childList'' \<and> length (addedNodes m) > 0
            then visit_nodes mt sel stopOnFirstFind (addedNodes m) w
            else Continue w) of
        Return w' \<Rightarrow> w'
      | Continue w1 \<Rightarrow>
          (if stopOnFirstFind then
             (case takeRecords w1 of
                (taken, w2) \<Rightarrow>
                  if length taken = 0 then w2
                  else observer_callback mt sel stopOnFirstFind ms w2)
           else observer_callback mt sel stopOnFirstFind ms w1))"

datatype handle = MutationObserver

text \<open>
  \<open>onNewElement(targetNode, selector, callback, stopOnFirstFind)\<close>: the first equation is
  the case \<open>targetNode instanceof HTMLElement\<close>; the result is the observer or null (None).
\<close>

fun onNewElement :: "engine \<Rightarrow> jsvalue \<Rightarrow> string \<Rightarrow> bool \<Rightarrow> world \<Rightarrow> handle option \<times> world" where
  "onNewElement mt (NodeRef (Element i t cs ks) conn) sel stopOnFirstFind w =
     (case (if stopOnFirstFind then querySelector mt sel (Element i t cs ks) else None) of
        Some existingElement \<Rightarrow> (None, callback existingElement w)
      | None \<Rightarrow>
          (Some MutationObserver,
           (observe w)\<lparr>console := console (observe w) @
              [ConsoleLog (''MutationObserver started observing for '' @ [CHR 39] @ sel @
                           [CHR 39] @ '' within'')
                 (NodeRef (Element i t cs ks) conn)]\<rparr>))"
| "onNewElement mt targetNode sel stopOnFirstFind w =
     (None, w\<lparr>console := console w @
        [ConsoleError ''Invalid targetNode provided. Must be an HTMLElement.'']\<rparr>)"

section \<open>The host: queueing records and notifying the observer\<close>

text \<open>
  A mutation under the observed target queues a record while the observer is registered.
  To notify, the host takes the queue, empties it, and calls the handler with the records
  when there are any. Cancelling a watch is \<open>disconnect\<close> on the returned observer.
\<close>

datatype event = Mutated mutation | Notify | Cancel

definition queue_record :: "mutation \<Rightarrow> world \<Rightarrow> world" where
  "queue_record m w = (if observing w then w\<lparr>pending := pending w @ [m]\<rparr> else w)"

definition notify :: "engine \<Rightarrow> string \<Rightarrow> bool \<Rightarrow> world \<Rightarrow> world" where
  "notify mt sel stopOnFirstFind w =
     (if pending w = [] then w
      else observer_callback mt sel stopOnFirstFind (pending w) (w\<lparr>pending := []\<rparr>))"

fun host_step :: "engine \<Rightarrow> string \<Rightarrow> bool \<Rightarrow> world \<Rightarrow> event \<Rightarrow> world" where
  "host_step mt sel stopOnFirstFind w (Mutated m) = queue_record m w"
| "host_step mt sel stopOnFirstFind w Notify = notify mt sel stopOnFirstFind w"
| "host_step mt sel stopOnFirstFind w Cancel = disconnect w"

definition run :: "engine \<Rightarrow> string \<Rightarrow> bool \<Rightarrow> world \<Rightarrow> event list \<Rightarrow> world" where
  "run mt sel stopOnFirstFind w evs = foldl (host_step mt sel stopOnFirstFind) w evs"

text \<open>One notification batch: its records are queued, then the observer is notified.\<close>

definition deliver :: "engine \<Rightarrow> string \<Rightarrow> bool \<Rightarrow> world \<Rightarrow> mutation list \<Rightarrow> world" where
  "deliver mt sel stopOnFirstFind w batch =
     run mt sel stopOnFirstFind w (map Mutated batch @ [Notify])"

definition start :: world where
  "start = \<lparr>observing = False, pending = [], calls = [], console = []\<rparr>"

text \<open>\<open>targetNode instanceof HTMLElement\<close>, the test of the first equation of
  \<open>onNewElement\<close>.\<close>

fun instanceof_HTMLElement :: "jsvalue \<Rightarrow> bool" where
  "instanceof_HTMLElement (NodeRef (Element i t cs ks) conn) = True"
| "instanceof_HTMLElement v = False"

section \<open>What a batch holds, in the words of the specification\<close>

text \<open>
  The nodes a batch inserted: each added node followed by its descendants, record by
  record, in the host's order. The matches of a batch are the elements among them that
  match the selector. A batch stripped of the added nodes that are not elements.
\<close>

definition inserted_nodes :: "mutation list \<Rightarrow> node list" where
  "inserted_nodes batch =
     concat (map (\<lambda>m. concat (map (\<lambda>n. n # descendants n) (addedNodes m))) batch)"

definition batch_matches :: "engine \<Rightarrow> string \<Rightarrow> mutation list \<Rightarrow> node list" where
  "batch_matches mt sel batch =
     filter (\<lambda>e. nodeType e = ELEMENT_NODE \<and> mt sel e) (inserted_nodes batch)"

fun drop_non_elements :: "mutation \<Rightarrow> mutation" where
  "drop_non_elements (ChildListRecord added removed) =
     ChildListRecord (filter (\<lambda>n. nodeType n = ELEMENT_NODE) added) removed"
| "drop_non_elements (AttributesRecord a) = AttributesRecord a"
| "drop_non_elements CharacterDataRecord = CharacterDataRecord"

fun records_of :: "event list \<Rightarrow> mutation list" where
  "records_of [] = []"
| "records_of (Mutated m # evs) = m # records_of evs"
| "records_of (ev # evs) = records_of evs"

text \<open>
  The state of a watch that stops after its first match, relative to the calls \<open>c0\<close> made
  before it started: either no call was added, or exactly one was and the observer is
  disconnected with an empty queue.
\<close>

definition at_most_one :: "node list \<Rightarrow> world \<Rightarrow> bool" where
  "at_most_one c0 w \<longleftrightarrow>
     calls w = c0
     \<or> (calls w \<noteq> [] \<and> butlast (calls w) = c0 \<and> \<not> observing w \<and> pending w = [])"

section \<open>waitForElement\<close>

text \<open>
  \<open>document.body\<close>: the first child of the \<open>html\<close> root that is a \<open>body\<close> or a
  \<open>frameset\<close> element, and null when there is none (a script that runs while the head
  is parsed finds no body yet).
\<close>

fun is_body :: "node \<Rightarrow> bool" where
  "is_body (Element i t cs ks) = (t = ''body'' \<or> t = ''frameset'')"
| "is_body n = False"

fun document_body :: "node \<Rightarrow> node option" where
  "document_body (Element i t cs ks) = (if t = ''html'' then List.find is_body ks else None)"
| "document_body n = None"

text \<open>
  The promise is modelled by the values \<open>resolve\<close> was called with, in order, the errors
  it was rejected with, and the observer by whether it is registered. An exception thrown
  in the executor of a promise rejects the promise. \<open>observer.observe(target, ...)\<close>
  throws a TypeError when the target is null and registers the observer otherwise. The
  handler ignores its records and queries the document as it is when the handler runs.
\<close>

datatype js_error = TypeError

record waiter =
  resolutions :: "node option list"
  rejections :: "js_error list"
  subscribed :: bool

definition resolve :: "node option \<Rightarrow> waiter \<Rightarrow> waiter" where
  "resolve v p = p\<lparr>resolutions := resolutions p @ [v]\<rparr>"

definition reject :: "js_error \<Rightarrow> waiter \<Rightarrow> waiter" where
  "reject err p = p\<lparr>rejections := rejections p @ [err]\<rparr>"

definition waiter_observe :: "node option \<Rightarrow> waiter \<Rightarrow> js_error + waiter" where
  "waiter_observe target p =
     (case target of
        None \<Rightarrow> Inl TypeError
      | Some b \<Rightarrow> Inr (p\<lparr>subscribed := True\<rparr>))"

definition new_promise :: waiter where
  "new_promise = \<lparr>resolutions = [], rejections = [], subscribed = False\<rparr>"

definition waitForElement :: "engine \<Rightarrow> string \<Rightarrow> node \<Rightarrow> waiter" where
  "waitForElement mt sel doc =
     (if document_querySelector mt sel doc \<noteq> None
      then resolve (document_querySelector mt sel doc) new_promise
      else
        (case waiter_observe (document_body doc) new_promise of
           Inl err \<Rightarrow> reject err new_promise
         | Inr p \<Rightarrow> p))"

definition waiter_callback :: "engine \<Rightarrow> string \<Rightarrow> node \<Rightarrow> waiter \<Rightarrow> waiter" where
  "waiter_callback mt sel doc p =
     (if document_querySelector mt sel doc \<noteq> None
      then resolve (document_querySelector mt sel doc) (p\<lparr>subscribed := False\<rparr>)
      else p)"

text \<open>The host calls the handler on a batch only while the observer is registered; a run
  of batches is given by the documents the handler finds, one for each batch.\<close>

definition waiter_notify :: "engine \<Rightarrow> string \<Rightarrow> waiter \<Rightarrow> node \<Rightarrow> waiter" where
  "waiter_notify mt sel p doc = (if subscribed p then waiter_callback mt sel doc p else p)"

definition waiter_run :: "engine \<Rightarrow> string \<Rightarrow> waiter \<Rightarrow> node list \<Rightarrow> waiter" where
  "waiter_run mt sel p docs = foldl (waiter_notify mt sel) p docs"

definition document_has_match :: "engine \<Rightarrow> string \<Rightarrow> node \<Rightarrow> bool" where
  "document_has_match mt sel doc =
     list_ex (\<lambda>d. nodeType d = ELEMENT_NODE \<and> mt sel d) (doc # descendants doc)"

section \<open>isElementEffectivelyHidden\<close>

text \<open>
  What the function reads of an element and of the window. Lengths of the bounding
  rectangle are real numbers; the offset sizes and the viewport sizes are integers.
  \<open>parseFloat\<close> is the language's builtin, a parameter of the function; its result is a
  number value.
\<close>

datatype number = NaN | PosInfinity | NegInfinity | Finite real

record computed_style =
  display :: string
  visibility :: string
  opacity :: string

record dom_rect =
  rect_left :: real
  rect_top :: real
  rect_width :: real
  rect_height :: real

record element =
  isConnected :: bool
  offsetWidth :: int
  offsetHeight :: int
  getComputedStyle :: computed_style
  getBoundingClientRect :: dom_rect

record window =
  innerWidth :: int
  innerHeight :: int

definition isElementEffectivelyHidden ::
    "(string \<Rightarrow> number) \<Rightarrow> window \<Rightarrow> element option \<Rightarrow> bool" where
  "isElementEffectivelyHidden parseFloat win el =
     (case el of
        None \<Rightarrow> True
      | Some e \<Rightarrow>
          if \<not> isConnected e then True
          else if offsetWidth e = 0 \<or> offsetHeight e = 0 then True
          else
            (let computedStyle = getComputedStyle e in
             if display computedStyle = ''none''
                \<or> visibility computedStyle = ''hidden''
                \<or> visibility computedStyle = ''collapse''
                \<or> parseFloat (opacity computedStyle) = Finite 0
             then True
             else
               (let rect = getBoundingClientRect e in
                if rect_width rect = 0
                   \<or> rect_height rect = 0
                   \<or> rect_left rect + rect_width rect \<le> 0
                   \<or> rect_top rect + rect_height rect \<le> 0
                   \<or> rect_left rect \<ge> of_int (innerWidth win)
                   \<or> rect_top rect \<ge> of_int (innerHeight win)
                then True
                else False)))"

text \<open>The four conditions, in the words of the specification.\<close>

definition absent_or_detached :: "element option \<Rightarrow> bool" where
  "absent_or_detached el = (case el of None \<Rightarrow> True | Some e \<Rightarrow> \<not> isConnected e)"

definition zero_rendered_box :: "element \<Rightarrow> bool" where
  "zero_rendered_box e \<longleftrightarrow> offsetWidth e = 0 \<or> offsetHeight e = 0"

definition style_hides :: "(string \<Rightarrow> number) \<Rightarrow> element \<Rightarrow> bool" where
  "style_hides parseFloat e \<longleftrightarrow>
     display (getComputedStyle e) = ''none''
     \<or> visibility (getComputedStyle e) \<in> {''hidden'', ''collapse''}
     \<or> parseFloat (opacity (getComputedStyle e)) = Finite 0"

definition rect_outside :: "window \<Rightarrow> element \<Rightarrow> bool" where
  "rect_outside win e \<longleftrightarrow>
     rect_width (getBoundingClientRect e) = 0
     \<or> rect_height (getBoundingClientRect e) = 0
     \<or> rect_left (getBoundingClientRect e) + rect_width (getBoundingClientRect e) \<le> 0
     \<or> rect_top (getBoundingClientRect e) + rect_height (getBoundingClientRect e) \<le> 0
     \<or> of_int (innerWidth win) \<le> rect_left (getBoundingClientRect e)
     \<or> of_int (innerHeight win) \<le> rect_top (getBoundingClientRect e)"

text \<open>
  An instance of \<open>parseFloat\<close> on which the scenarios are run: leading white space is
  skipped, then the longest prefix of the form sign, digits, fraction, exponent (or
  \<open>Infinity\<close>) is read; with no digit there the result is NaN. The value is the exact
  decimal value: the rounding to the nearest double is left out.
\<close>

definition isStrWhiteSpaceChar :: "char \<Rightarrow> bool" where
  "isStrWhiteSpaceChar c \<longleftrightarrow> (of_char c :: nat) \<in> {9, 10, 11, 12, 13, 32}"

definition isDecimalDigit :: "char \<Rightarrow> bool" where
  "isDecimalDigit c \<longleftrightarrow> 48 \<le> (of_char c :: nat) \<and> (of_char c :: nat) \<le> 57"

definition digits_value :: "string \<Rightarrow> nat" where
  "digits_value ds = foldl (\<lambda>a c. 10 * a + (of_char c - 48)) 0 ds"

definition exponent_value :: "string \<Rightarrow> int" where
  "exponent_value s =
     (if take 1 s = ''e'' \<or> take 1 s = ''E'' then
        (let t = drop 1 s;
             u = (if take 1 t = ''-'' \<or> take 1 t = ''+'' then drop 1 t else t);
             ds = takeWhile isDecimalDigit u
         in if ds = [] then 0
            else if take 1 t = ''-'' then - int (digits_value ds)
            else int (digits_value ds))
      else 0)"

definition parseFloat_decimal :: "string \<Rightarrow> number" where
  "parseFloat_decimal inputString =
     (let trimmed = dropWhile isStrWhiteSpaceChar inputString;
          negative = (take 1 trimmed = ''-'');
          unsigned = (if take 1 trimmed = ''-'' \<or> take 1 trimmed = ''+''
                      then drop 1 trimmed else trimmed)
      in if take 8 unsigned = ''Infinity''
         then (if negative then NegInfinity else PosInfinity)
         else
           (let intPart = takeWhile isDecimalDigit unsigned;
                rest = dropWhile isDecimalDigit unsigned;
                fracPart = (if take 1 rest = ''.''
                            then takeWhile isDecimalDigit (drop 1 rest) else []);
                rest2 = (if take 1 rest = ''.''
                         then dropWhile isDecimalDigit (drop 1 rest) else rest);
                ex = exponent_value rest2;
                mantissa = real (digits_value intPart)
                           + real (digits_value fracPart) / 10 ^ length fracPart;
                scaled = (if 0 \<le> ex then mantissa * 10 ^ nat ex
                          else mantissa / 10 ^ nat (- ex))
            in if intPart = [] \<and> fracPart = [] then NaN
               else Finite (if negative then - scaled else scaled)))"

section \<open>Scenarios\<close>

text \<open>An empty root, two spans of class \<open>item\<close>, a paragraph, a wrapper around the two
  spans, and the root with the first span already in it.\<close>

definition empty_root :: node where
  "empty_root = Element 0 ''div'' [] []"

definition item_a :: node where
  "item_a = Element 1 ''span'' [''item''] []"

definition item_b :: node where
  "item_b = Element 2 ''span'' [''item''] []"

definition plain_para :: node where
  "plain_para = Element 3 ''p'' [] []"

definition wrapper :: node where
  "wrapper = Element 4 ''div'' [] [item_a, item_b]"

text \<open>A batch of two records, as the host reports a new container added to the root and
  the first span then added to the container, both before the handler runs: the
  container, which holds the span by then, and the span itself.\<close>

definition nested_batch :: "mutation list" where
  "nested_batch =
     [ChildListRecord [Element 5 ''div'' [] [item_a]] [], ChildListRecord [item_a] []]"

definition root_with_item :: node where
  "root_with_item = Element 0 ''div'' [] [plain_para, item_a]"

text \<open>A 100 by 100 element at (10, 20) with the default style, detached and connected,
  in a window of 1024 by 768.\<close>

definition default_style :: computed_style where
  "default_style = \<lparr>display = ''block'', visibility = ''visible'', opacity = ''1''\<rparr>"

definition visible_box :: element where
  "visible_box =
     \<lparr>isConnected = True, offsetWidth = 100, offsetHeight = 100,
      getComputedStyle = default_style,
      getBoundingClientRect =
        \<lparr>rect_left = 10, rect_top = 20, rect_width = 100, rect_height = 100\<rparr>\<rparr>"

definition viewport :: window where
  "viewport = \<lparr>innerWidth = 1024, innerHeight = 768\<rparr>"

text \<open>The state a step of the handler ends in, whether it goes on or returns.\<close>

fun world_of :: "'a flow \<Rightarrow> 'a" where
  "world_of (Continue w) = w"
| "world_of (Return w) = w"

text \<open>A watch on the empty root for \<open>.item\<close> that does not stop after the first match.\<close>

definition continuous_session :: world where
  "continuous_session =
     snd (onNewElement simple_matches (NodeRef empty_root True) ''.item'' False start)"

text \<open>Four states of a page: only a head, nothing in the body, a paragraph in it, and
  the paragraph followed by the two spans.\<close>

definition page_headless :: node where
  "page_headless = Element 10 ''html'' [] [Element 11 ''head'' [] []]"

definition page_empty :: node where
  "page_empty = Element 10 ''html'' [] [Element 11 ''head'' [] [], Element 12 ''body'' [] []]"

definition page_plain :: node where
  "page_plain =
     Element 10 ''html'' [] [Element 11 ''head'' [] [], Element 12 ''body'' [] [plain_para]]"

definition page_item :: node where
  "page_item =
     Element 10 ''html'' [] [Element 11 ''head'' [] [],
       Element 12 ''body'' [] [plain_para, item_a, item_b]]"

text \<open>The box detached, not displayed (so with no rendered box), and moved above the
  viewport.\<close>

definition detached_box :: element where
  "detached_box = visible_box\<lparr>isConnected := False\<rparr>"

definition undisplayed_box :: element where
  "undisplayed_box = visible_box\<lparr>offsetWidth := 0, offsetHeight := 0,
     getComputedStyle := default_style\<lparr>display := ''none''\<rparr>,
     getBoundingClientRect :=
       \<lparr>rect_left = 0, rect_top = 0, rect_width = 0, rect_height = 0\<rparr>\<rparr>"

definition box_above_viewport :: element where
  "box_above_viewport = visible_box\<lparr>getBoundingClientRect :=
     \<lparr>rect_left = 10, rect_top = - 150, rect_width = 100, rect_height = 100\<rparr>\<rparr>"

section \<open>A watch that stops after the first match\<close>

lemma at_most_one_iff:
  "at_most_one c0 w \<longleftrightarrow>
     calls w = c0 \<or> (\<exists>e. calls w = c0 @ [e] \<and> \<not> observing w \<and> pending w = [])"
proof -
  have "(calls w \<noteq> [] \<and> butlast (calls w) = c0) \<longleftrightarrow> (\<exists>e. calls w = c0 @ [e])"
    by (metis append_butlast_last_id butlast_snoc snoc_eq_iff_butlast)
  then show ?thesis
    unfolding at_most_one_def by blast
qed

lemma visit_node_stop_Continue:
  "visit_node mt sel True n w = Continue w' \<Longrightarrow> w' = w"
  by (auto simp: visit_node_def split: if_splits option.splits)

lemma visit_node_stop_Return:
  "visit_node mt sel True n w = Return w' \<Longrightarrow> \<exists>e. w' = disconnect (callback e w)"
  by (auto simp: visit_node_def split: if_splits option.splits)

lemma visit_nodes_stop_Continue:
  "visit_nodes mt sel True ns w = Continue w' \<Longrightarrow> w' = w"
proof (induction ns arbitrary: w)
  case Nil
  then show ?case by simp
next
  case (Cons n ns)
  then show ?case
    by (auto split: flow.splits dest: visit_node_stop_Continue)
qed

lemma visit_nodes_stop_Return:
  "visit_nodes mt sel True ns w = Return w' \<Longrightarrow> \<exists>e. w' = disconnect (callback e w)"
proof (induction ns arbitrary: w)
  case Nil
  then show ?case by simp
next
  case (Cons n ns)
  then show ?case
    by (auto split: flow.splits dest: visit_node_stop_Continue visit_node_stop_Return)
qed

lemma observer_callback_stop:
  "calls w = c0 \<Longrightarrow> at_most_one c0 (observer_callback mt sel True ms w)"
proof (induction ms arbitrary: w)
  case Nil
  then show ?case by (simp add: at_most_one_iff)
next
  case (Cons m ms)
  show ?case
  proof (cases "mtype m = ''childList'' \<and> length (addedNodes m) > 0")
    case True
    show ?thesis
    proof (cases "visit_nodes mt sel True (addedNodes m) w")
      case (Continue w1)
      then have "w1 = w" by (rule visit_nodes_stop_Continue)
      with True Continue Cons show ?thesis
        by (auto simp: takeRecords_def at_most_one_iff)
    next
      case (Return w1)
      then obtain e where "w1 = disconnect (callback e w)"
        using visit_nodes_stop_Return by blast
      with True Return Cons.prems show ?thesis
        by (simp add: at_most_one_iff disconnect_def callback_def)
    qed
  next
    case False
    with Cons show ?thesis
      by (auto simp: takeRecords_def at_most_one_iff)
  qed
qed

lemma host_step_at_most_one:
  assumes "at_most_one c0 w"
  shows "at_most_one c0 (host_step mt sel True w ev)"
proof (cases ev)
  case (Mutated m)
  with assms show ?thesis
    by (auto simp: at_most_one_iff queue_record_def)
next
  case Notify
  show ?thesis
  proof (cases "calls w = c0")
    case True
    then have "at_most_one c0 (observer_callback mt sel True (pending w) (w\<lparr>pending := []\<rparr>))"
      by (intro observer_callback_stop) simp
    with assms Notify show ?thesis by (simp add: notify_def)
  next
    case False
    with assms have "pending w = []" by (auto simp: at_most_one_iff)
    with assms Notify show ?thesis by (simp add: notify_def)
  qed
next
  case Cancel
  with assms show ?thesis
    by (auto simp: at_most_one_iff disconnect_def)
qed

lemma run_at_most_one:
  "at_most_one c0 w \<Longrightarrow> at_most_one c0 (run mt sel True w evs)"
  unfolding run_def
  by (induction evs arbitrary: w) (simp_all add: host_step_at_most_one)

lemma onNewElement_observer:
  "onNewElement mt tgt sel stop w = (Some h, w0) \<Longrightarrow>
   calls w0 = calls w \<and> observing w0 \<and> pending w0 = pending w"
  by (cases "(mt, tgt, sel, stop, w)" rule: onNewElement.cases)
     (auto simp: observe_def split: option.splits if_splits)

text \<open>
  Claim C1. In a watch started with \<open>stopOnFirstFind\<close> set that returned an observer,
  whatever mutations, notifications and cancellations follow, the callback is invoked at
  most once over the whole session, and once it has been invoked the observer is
  disconnected and its record queue is empty. Within one run of the handler, on any
  batch, the same holds: the first invocation, for an added node that matches or for a
  matching descendant of an added node, disconnects the observer and ends the handler.
\<close>

theorem stop_after_first_at_most_once:
  assumes "onNewElement mt targetNode sel True w = (Some h, w0)"
  shows "length (calls (run mt sel True w0 evs)) \<le> length (calls w) + 1
         \<and> take (length (calls w)) (calls (run mt sel True w0 evs)) = calls w
         \<and> (calls (run mt sel True w0 evs) \<noteq> calls w \<longrightarrow>
              \<not> observing (run mt sel True w0 evs) \<and> pending (run mt sel True w0 evs) = [])
         \<and> length (calls (observer_callback mt sel True batch w0)) \<le> length (calls w0) + 1
         \<and> take (length (calls w0)) (calls (observer_callback mt sel True batch w0)) = calls w0
         \<and> (calls (observer_callback mt sel True batch w0) \<noteq> calls w0 \<longrightarrow>
              \<not> observing (observer_callback mt sel True batch w0))
         \<and> (visit_node mt sel True n w0 = Continue w0
            \<or> (\<exists>e. visit_node mt sel True n w0 = Return (disconnect (callback e w0))))"
proof -
  from assms have c: "calls w0 = calls w"
    by (simp add: onNewElement_observer)
  then have "at_most_one (calls w) w0"
    by (simp add: at_most_one_iff)
  then have "at_most_one (calls w) (run mt sel True w0 evs)"
    by (rule run_at_most_one)
  then have a: "length (calls (run mt sel True w0 evs)) \<le> length (calls w) + 1
         \<and> take (length (calls w)) (calls (run mt sel True w0 evs)) = calls w
         \<and> (calls (run mt sel True w0 evs) \<noteq> calls w \<longrightarrow>
              \<not> observing (run mt sel True w0 evs) \<and> pending (run mt sel True w0 evs) = [])"
    by (auto simp: at_most_one_iff)
  have "at_most_one (calls w0) (observer_callback mt sel True batch w0)"
    by (rule observer_callback_stop) simp
  then have d: "length (calls (observer_callback mt sel True batch w0)) \<le> length (calls w0) + 1
         \<and> take (length (calls w0)) (calls (observer_callback mt sel True batch w0)) = calls w0
         \<and> (calls (observer_callback mt sel True batch w0) \<noteq> calls w0 \<longrightarrow>
              \<not> observing (observer_callback mt sel True batch w0))"
    by (auto simp: at_most_one_iff)
  have e: "visit_node mt sel True n w0 = Continue w0
           \<or> (\<exists>e. visit_node mt sel True n w0 = Return (disconnect (callback e w0)))"
    by (cases "visit_node mt sel True n w0")
       (auto dest: visit_node_stop_Continue visit_node_stop_Return)
  from a d e show ?thesis by blast
qed

theorem stop_after_first_at_most_once_witness:
  "onNewElement simple_matches (NodeRef empty_root True) ''.item'' True start
     = (Some MutationObserver, observe start\<lparr>console :=
          [ConsoleLog ''MutationObserver started observing for '.item' within''
             (NodeRef empty_root True)]\<rparr>)
   \<and> calls (run simple_matches ''.item'' True
        (observe start\<lparr>console :=
          [ConsoleLog ''MutationObserver started observing for '.item' within''
             (NodeRef empty_root True)]\<rparr>)
        [Mutated (ChildListRecord [plain_para, wrapper] []), Notify,
         Mutated (ChildListRecord [item_b] []), Notify]) = [item_a]
   \<and> length (calls (run simple_matches ''.item'' True
        (observe start\<lparr>console :=
          [ConsoleLog ''MutationObserver started observing for '.item' within''
             (NodeRef empty_root True)]\<rparr>)
        [Mutated (ChildListRecord [plain_para, wrapper] []), Notify,
         Mutated (ChildListRecord [item_b] []), Notify])) \<le> length (calls start) + 1"
proof -
  have h: "onNewElement simple_matches (NodeRef empty_root True) ''.item'' True start
     = (Some MutationObserver, observe start\<lparr>console :=
          [ConsoleLog ''MutationObserver started observing for '.item' within''
             (NodeRef empty_root True)]\<rparr>)"
    by (simp add: empty_root_def start_def observe_def querySelector_def)
  have r: "calls (run simple_matches ''.item'' True
        (observe start\<lparr>console :=
          [ConsoleLog ''MutationObserver started observing for '.item' within''
             (NodeRef empty_root True)]\<rparr>)
        [Mutated (ChildListRecord [plain_para, wrapper] []), Notify,
         Mutated (ChildListRecord [item_b] []), Notify]) = [item_a]"
    by (simp add: run_def start_def observe_def queue_record_def notify_def plain_para_def
        wrapper_def item_a_def item_b_def visit_node_def ELEMENT_NODE_def querySelector_def
        takeRecords_def callback_def disconnect_def)
  from stop_after_first_at_most_once [OF h,
      of "[Mutated (ChildListRecord [plain_para, wrapper] []), Notify,
           Mutated (ChildListRecord [item_b] []), Notify]"] h r
  show ?thesis by simp
qed

text \<open>
  Claim C2, at the input where the code departs from it. A watch with \<open>stopOnFirstFind\<close>
  set is started on an empty root. One batch of two records follows: the first record
  adds a paragraph that does not match, the second adds the one matching span. The
  handler returns after the first record, since no record is pending then, so the
  callback is never invoked and the observer stays registered.
\<close>

theorem stop_after_first_misses_second_record:
  "calls (deliver simple_matches ''.item'' True
            (snd (onNewElement simple_matches (NodeRef empty_root True) ''.item'' True start))
            [ChildListRecord [plain_para] [], ChildListRecord [item_a] []]) = []
   \<and> observing (deliver simple_matches ''.item'' True
            (snd (onNewElement simple_matches (NodeRef empty_root True) ''.item'' True start))
            [ChildListRecord [plain_para] [], ChildListRecord [item_a] []])
   \<and> batch_matches simple_matches ''.item''
         [ChildListRecord [plain_para] [], ChildListRecord [item_a] []] = [item_a]
   \<and> querySelector simple_matches ''.item'' empty_root = None"
  by (simp add: deliver_def run_def empty_root_def start_def observe_def queue_record_def
      notify_def plain_para_def item_a_def visit_node_def ELEMENT_NODE_def
      querySelector_def takeRecords_def batch_matches_def inserted_nodes_def)

section \<open>The checks at the start of onNewElement\<close>

lemma querySelector_Some:
  "querySelector mt sel n = Some e \<Longrightarrow>
   e \<in> set (descendants n) \<and> nodeType e = ELEMENT_NODE \<and> mt sel e"
  by (auto simp: querySelector_def find_Some_iff)

lemma querySelector_exists:
  assumes "d \<in> set (descendants n)" "nodeType d = ELEMENT_NODE" "mt sel d"
  shows "\<exists>e. querySelector mt sel n = Some e"
proof (cases "querySelector mt sel n")
  case None
  with assms show ?thesis
    by (auto simp: querySelector_def find_None_iff)
next
  case (Some e)
  then show ?thesis by simp
qed

text \<open>
  Claim C4. With \<open>stopOnFirstFind\<close> set and an element root that has a matching element
  among its descendants at call time, the subtree query finds a matching descendant, the
  callback is invoked once, in the call itself, with the element the query found, the
  result is null, and the rest of the state is as before: no observer is registered.
\<close>

theorem fast_path_existing_match:
  assumes "d \<in> set (descendants (Element i t cs ks))"
    and "nodeType d = ELEMENT_NODE"
    and "mt sel d"
  shows "\<exists>e. querySelector mt sel (Element i t cs ks) = Some e
           \<and> e \<in> set (descendants (Element i t cs ks))
           \<and> nodeType e = ELEMENT_NODE \<and> mt sel e
           \<and> onNewElement mt (NodeRef (Element i t cs ks) conn) sel True w
               = (None, w\<lparr>calls := calls w @ [e]\<rparr>)
           \<and> observing (snd (onNewElement mt (NodeRef (Element i t cs ks) conn) sel True w))
               = observing w"
proof -
  from assms obtain e where q: "querySelector mt sel (Element i t cs ks) = Some e"
    using querySelector_exists by blast
  then have "e \<in> set (descendants (Element i t cs ks)) \<and> nodeType e = ELEMENT_NODE \<and> mt sel e"
    by (rule querySelector_Some)
  moreover from q have "onNewElement mt (NodeRef (Element i t cs ks) conn) sel True w
               = (None, w\<lparr>calls := calls w @ [e]\<rparr>)"
    by (simp add: callback_def)
  ultimately show ?thesis using q by simp
qed

theorem fast_path_existing_match_witness:
  "item_a \<in> set (descendants (Element 0 ''div'' [] [plain_para, item_a]))
   \<and> nodeType item_a = ELEMENT_NODE
   \<and> simple_matches ''.item'' item_a
   \<and> onNewElement simple_matches (NodeRef (Element 0 ''div'' [] [plain_para, item_a]) True)
        ''.item'' True start = (None, start\<lparr>calls := [item_a]\<rparr>)"
proof -
  have h1: "item_a \<in> set (descendants (Element 0 ''div'' [] [plain_para, item_a]))"
    by (simp add: item_a_def plain_para_def)
  have h2: "nodeType item_a = ELEMENT_NODE"
    by (simp add: item_a_def ELEMENT_NODE_def)
  have h3: "simple_matches ''.item'' item_a"
    by (simp add: item_a_def)
  have q: "querySelector simple_matches ''.item'' (Element 0 ''div'' [] [plain_para, item_a])
             = Some item_a"
    by (simp add: querySelector_def item_a_def plain_para_def ELEMENT_NODE_def)
  from fast_path_existing_match [where mt = simple_matches and sel = "''.item''"
      and d = item_a and conn = True and w = start, OF h1 h2 h3] q h1 h2 h3
  show ?thesis by (simp add: start_def)
qed

text \<open>
  Claim C3, as amended. A target that is not an HTMLElement (null, a string, a text or a
  comment node) is rejected: one error is written to the console, no observer is
  registered, the callback is not invoked, and the result is null. Whether an element is
  connected is not examined: with \<open>stopOnFirstFind\<close> unset, an element root gets its
  observer whatever its \<open>isConnected\<close> is.
\<close>

theorem not_an_element_rejected:
  "(\<not> instanceof_HTMLElement targetNode \<longrightarrow>
      onNewElement mt targetNode sel stop w
        = (None, w\<lparr>console := console w @
             [ConsoleError ''Invalid targetNode provided. Must be an HTMLElement.'']\<rparr>)
      \<and> observing (snd (onNewElement mt targetNode sel stop w)) = observing w
      \<and> calls (snd (onNewElement mt targetNode sel stop w)) = calls w)
   \<and> fst (onNewElement mt (NodeRef (Element i t cs ks) conn) sel False w)
        = Some MutationObserver
   \<and> observing (snd (onNewElement mt (NodeRef (Element i t cs ks) conn) sel False w))"
proof -
  have "onNewElement mt targetNode sel stop w
        = (None, w\<lparr>console := console w @
             [ConsoleError ''Invalid targetNode provided. Must be an HTMLElement.'']\<rparr>)"
    if "\<not> instanceof_HTMLElement targetNode"
    using that by (cases "(mt, targetNode, sel, stop, w)" rule: onNewElement.cases) simp_all
  then show ?thesis by (simp add: observe_def)
qed

theorem not_an_element_rejected_witness:
  "\<not> instanceof_HTMLElement (Str ''.item'')
   \<and> onNewElement simple_matches (Str ''.item'') ''.item'' True start
        = (None, start\<lparr>console :=
             [ConsoleError ''Invalid targetNode provided. Must be an HTMLElement.'']\<rparr>)
   \<and> \<not> instanceof_HTMLElement (NodeRef (Text ''hello'') True)
   \<and> fst (onNewElement simple_matches (NodeRef (Text ''hello'') True) ''.item'' False start)
        = None"
  using not_an_element_rejected [of "Str ''.item''" simple_matches "''.item''" True start]
    not_an_element_rejected [of "NodeRef (Text ''hello'') True" simple_matches "''.item''" False start]
  by (simp add: start_def)

text \<open>
  Claim C3 as stated fails on a detached element: the watch is started, the observer is
  registered and returned, and no error is written; with \<open>stopOnFirstFind\<close> set and a
  match under the detached root, the callback is invoked.
\<close>

theorem detached_root_accepted:
  "fst (onNewElement simple_matches (NodeRef empty_root False) ''.item'' False start)
     = Some MutationObserver
   \<and> observing (snd (onNewElement simple_matches (NodeRef empty_root False) ''.item'' False start))
   \<and> console (snd (onNewElement simple_matches (NodeRef empty_root False) ''.item'' False start))
     = [ConsoleLog ''MutationObserver started observing for '.item' within''
          (NodeRef empty_root False)]
   \<and> calls (snd (onNewElement simple_matches (NodeRef root_with_item False) ''.item'' True start))
     = [item_a]"
  by (simp add: empty_root_def start_def observe_def root_with_item_def plain_para_def
      item_a_def querySelector_def ELEMENT_NODE_def callback_def)

section \<open>A watch that goes on after a match\<close>

lemma foldl_calls:
  "foldl (\<lambda>a d. a\<lparr>calls := calls a @ [d]\<rparr>) w xs = w\<lparr>calls := calls w @ xs\<rparr>"
  by (induction xs arbitrary: w) simp_all

lemma guard_redundant:
  "(if mtype m = ''childList'' \<and> length (addedNodes m) > 0
    then visit_nodes mt sel stop (addedNodes m) w else Continue w)
   = visit_nodes mt sel stop (addedNodes m) w"
  by (cases m) auto

lemma visit_node_continuous:
  "visit_node mt sel False n w =
   Continue (w\<lparr>calls := calls w @
      filter (\<lambda>e. nodeType e = ELEMENT_NODE \<and> mt sel e) (n # descendants n)\<rparr>)"
  by (cases n) (simp_all add: visit_node_def foldl_calls querySelectorAll_def
      callback_def ELEMENT_NODE_def)

lemma visit_nodes_continuous:
  "visit_nodes mt sel False ns w =
   Continue (w\<lparr>calls := calls w @
      filter (\<lambda>e. nodeType e = ELEMENT_NODE \<and> mt sel e)
        (concat (map (\<lambda>n. n # descendants n) ns))\<rparr>)"
  by (induction ns arbitrary: w) (simp_all add: visit_node_continuous)

lemma inserted_nodes_Cons:
  "inserted_nodes (m # ms) =
   concat (map (\<lambda>n. n # descendants n) (addedNodes m)) @ inserted_nodes ms"
  by (simp add: inserted_nodes_def)

lemma inserted_nodes_append:
  "inserted_nodes (xs @ ys) = inserted_nodes xs @ inserted_nodes ys"
  by (simp add: inserted_nodes_def)

lemma observer_callback_continuous:
  "observer_callback mt sel False batch w =
   w\<lparr>calls := calls w @ batch_matches mt sel batch\<rparr>"
proof (induction batch arbitrary: w)
  case Nil
  show ?case by (simp add: batch_matches_def inserted_nodes_def)
next
  case (Cons m ms)
  show ?case
    unfolding observer_callback.simps guard_redundant
    by (simp add: visit_nodes_continuous Cons.IH batch_matches_def inserted_nodes_Cons)
qed

lemma queue_batch:
  "observing w \<Longrightarrow>
   foldl (host_step mt sel stop) w (map Mutated batch) = w\<lparr>pending := pending w @ batch\<rparr>"
  by (induction batch arbitrary: w) (simp_all add: queue_record_def)

lemma deliver_continuous:
  assumes "observing w" and "pending w = []"
  shows "deliver mt sel False w batch = w\<lparr>calls := calls w @ batch_matches mt sel batch\<rparr>"
proof -
  have "deliver mt sel False w batch
        = notify mt sel False (foldl (host_step mt sel False) w (map Mutated batch))"
    by (simp add: deliver_def run_def)
  also have "\<dots> = notify mt sel False (w\<lparr>pending := batch\<rparr>)"
    using assms by (simp add: queue_batch)
  also have "\<dots> = w\<lparr>calls := calls w @ batch_matches mt sel batch\<rparr>"
    using assms
    by (cases batch)
       (simp_all add: notify_def observer_callback_continuous batch_matches_def
          inserted_nodes_def del: observer_callback.simps)
  finally show ?thesis .
qed

lemma deliver_all_continuous:
  "observing w \<Longrightarrow> pending w = [] \<Longrightarrow>
   foldl (deliver mt sel False) w batches =
   w\<lparr>calls := calls w @ concat (map (batch_matches mt sel) batches)\<rparr>"
  by (induction batches arbitrary: w) (simp_all add: deliver_continuous)

lemma length_concat_singletons:
  "\<forall>b\<in>set bs. length (f b) = 1 \<Longrightarrow> length (concat (map f bs)) = length bs"
  by (induction bs) simp_all

lemma batch_matches_iff:
  "e \<in> set (batch_matches mt sel batch) \<longleftrightarrow>
   nodeType e = ELEMENT_NODE \<and> mt sel e \<and>
   (\<exists>m\<in>set batch. \<exists>n\<in>set (addedNodes m). e = n \<or> e \<in> set (descendants n))"
  by (auto simp: batch_matches_def inserted_nodes_def)

lemma continuous_session_fields:
  "observing continuous_session" "pending continuous_session = []"
  "calls continuous_session = []"
  by (simp_all add: continuous_session_def empty_root_def start_def observe_def)

lemma count_list_filter:
  "count_list (filter P xs) e = (if P e then count_list xs e else 0)"
  by (induction xs) simp_all

text \<open>
  Claim C5, as amended. In a watch with \<open>stopOnFirstFind\<close> unset whose observer is
  registered and whose queue is empty, a notification batch adds to the calls exactly the
  matches of the batch: for every added node of every record, in the host's order, the
  node when it is an element that matches, then all its matching descendants. An element
  is a match of the batch exactly when it is a matching element that is an added node or
  lies under one, and it is reported as many times as it occurs among the added nodes and
  their descendants: an element that is an added node and also lies under another added
  node of the batch is reported once for each. A run of batches adds the matches of each,
  in order, so batches that hold one such occurrence each add one call each: N batches,
  N calls. Under the empty root, one batch that adds a wrapper around two spans of class
  \<open>item\<close> invokes the callback with the two spans, which are distinct and both match
  \<open>.item\<close>.
\<close>

theorem continuous_watch_reports_every_match:
  assumes "observing w" and "pending w = []"
  shows "deliver mt sel False w batch = w\<lparr>calls := calls w @ batch_matches mt sel batch\<rparr>
    \<and> (e \<in> set (batch_matches mt sel batch) \<longleftrightarrow>
         nodeType e = ELEMENT_NODE \<and> mt sel e \<and>
         (\<exists>m\<in>set batch. \<exists>n\<in>set (addedNodes m). e = n \<or> e \<in> set (descendants n)))
    \<and> count_list (batch_matches mt sel batch) e
         = (if nodeType e = ELEMENT_NODE \<and> mt sel e
            then count_list (inserted_nodes batch) e else 0)
    \<and> calls (foldl (deliver mt sel False) w batches)
         = calls w @ concat (map (batch_matches mt sel) batches)
    \<and> ((\<forall>b\<in>set batches. length (batch_matches mt sel b) = 1) \<longrightarrow>
         length (calls (foldl (deliver mt sel False) w batches))
           = length (calls w) + length batches)
    \<and> calls (deliver simple_matches ''.item'' False
         continuous_session
         [ChildListRecord [wrapper] []]) = [item_a, item_b]
    \<and> item_a \<noteq> item_b
    \<and> simple_matches ''.item'' item_a \<and> simple_matches ''.item'' item_b"
proof -
  have a: "deliver mt sel False w batch = w\<lparr>calls := calls w @ batch_matches mt sel batch\<rparr>"
    using assms by (rule deliver_continuous)
  have b: "calls (foldl (deliver mt sel False) w batches)
         = calls w @ concat (map (batch_matches mt sel) batches)"
    using assms by (simp add: deliver_all_continuous)
  have c: "length (calls (foldl (deliver mt sel False) w batches))
           = length (calls w) + length batches"
    if "\<forall>b\<in>set batches. length (batch_matches mt sel b) = 1"
    using that b by (simp add: length_concat_singletons)
  have s0: "observing continuous_session
     \<and> pending continuous_session = []
     \<and> calls continuous_session = []"
    by (simp add: continuous_session_def empty_root_def start_def observe_def)
  have bm: "batch_matches simple_matches ''.item'' [ChildListRecord [wrapper] []] = [item_a, item_b]"
    by (simp add: batch_matches_def inserted_nodes_def wrapper_def item_a_def item_b_def
        ELEMENT_NODE_def)
  have d: "calls (deliver simple_matches ''.item'' False
         continuous_session
         [ChildListRecord [wrapper] []]) = [item_a, item_b]"
    using s0 by (simp add: deliver_continuous bm)
  have f: "item_a \<noteq> item_b \<and> simple_matches ''.item'' item_a \<and> simple_matches ''.item'' item_b"
    by (simp add: item_a_def item_b_def)
  have g: "count_list (batch_matches mt sel batch) e
         = (if nodeType e = ELEMENT_NODE \<and> mt sel e
            then count_list (inserted_nodes batch) e else 0)"
    unfolding batch_matches_def by (rule count_list_filter)
  from a b c d f g batch_matches_iff [of e mt sel batch] show ?thesis by blast
qed

theorem continuous_watch_reports_every_match_witness:
  "observing continuous_session \<and> pending continuous_session = []
   \<and> deliver simple_matches ''.item'' False continuous_session [ChildListRecord [wrapper] []]
       = continuous_session\<lparr>calls := [item_a, item_b]\<rparr>
   \<and> length (batch_matches simple_matches ''.item'' [ChildListRecord [item_a] []]) = 1
   \<and> length (batch_matches simple_matches ''.item''
        [ChildListRecord [plain_para] [], ChildListRecord [Element 5 ''div'' [] [item_b]] []]) = 1
   \<and> length (calls (foldl (deliver simple_matches ''.item'' False) continuous_session
        [[ChildListRecord [item_a] []],
         [ChildListRecord [plain_para] [], ChildListRecord [Element 5 ''div'' [] [item_b]] []]]))
       = 2"
proof -
  have h1: "observing continuous_session" and h2: "pending continuous_session = []"
    by (simp_all add: continuous_session_fields)
  have b0: "batch_matches simple_matches ''.item'' [ChildListRecord [wrapper] []] = [item_a, item_b]"
    by (simp add: batch_matches_def inserted_nodes_def wrapper_def item_a_def item_b_def
        ELEMENT_NODE_def)
  have b1: "length (batch_matches simple_matches ''.item'' [ChildListRecord [item_a] []]) = 1"
    by (simp add: batch_matches_def inserted_nodes_def item_a_def ELEMENT_NODE_def)
  have b2: "length (batch_matches simple_matches ''.item''
        [ChildListRecord [plain_para] [], ChildListRecord [Element 5 ''div'' [] [item_b]] []]) = 1"
    by (simp add: batch_matches_def inserted_nodes_def item_b_def plain_para_def ELEMENT_NODE_def)
  from continuous_watch_reports_every_match [OF h1 h2,
      where mt = simple_matches and sel = "''.item''"
        and batch = "[ChildListRecord [wrapper] []]"
        and batches = "[[ChildListRecord [item_a] []],
         [ChildListRecord [plain_para] [], ChildListRecord [Element 5 ''div'' [] [item_b]] []]]"]
    h1 h2 b0 b1 b2
  show ?thesis by (simp add: continuous_session_fields)
qed

text \<open>
  Claim C5 as stated fails when an element is reported under two added nodes. A
  container is added to the root and the first span is then added to the container, both
  before the handler runs. The batch inserts one matching element, and the callback is
  invoked twice with it: once as a descendant of the container, once as an added node.
\<close>

theorem nested_insertion_reported_twice:
  "observing continuous_session \<and> pending continuous_session = []
   \<and> calls continuous_session = []
   \<and> remdups (batch_matches simple_matches ''.item'' nested_batch) = [item_a]
   \<and> calls (deliver simple_matches ''.item'' False continuous_session nested_batch)
       = [item_a, item_a]
   \<and> length (calls (foldl (deliver simple_matches ''.item'' False) continuous_session
        [nested_batch])) = 2"
  by (simp add: continuous_session_def deliver_def run_def empty_root_def start_def
      observe_def queue_record_def notify_def nested_batch_def item_a_def visit_node_def
      ELEMENT_NODE_def querySelectorAll_def callback_def batch_matches_def
      inserted_nodes_def)

section \<open>What the handler can report\<close>

lemma visit_node_reports:
  "\<exists>es. calls (world_of (visit_node mt sel stop n w)) = calls w @ es
        \<and> set es \<subseteq> {e \<in> set (n # descendants n). nodeType e = ELEMENT_NODE \<and> mt sel e}"
proof (cases stop)
  case False
  then show ?thesis by (auto simp: visit_node_continuous)
next
  case True
  then show ?thesis
    by (cases "querySelector mt sel n")
       (auto simp: visit_node_def callback_def disconnect_def dest: querySelector_Some)
qed

lemma visit_node_pending:
  assumes "pending w = []"
  shows "pending (world_of (visit_node mt sel stop n w)) = []"
proof (cases stop)
  case False
  with assms show ?thesis by (simp add: visit_node_continuous)
next
  case True
  with assms show ?thesis
    by (auto simp: visit_node_def callback_def disconnect_def split: option.splits)
qed

lemma visit_nodes_reports:
  "\<exists>es. calls (world_of (visit_nodes mt sel stop ns w)) = calls w @ es
        \<and> set es \<subseteq> {e \<in> set (concat (map (\<lambda>n. n # descendants n) ns)).
                       nodeType e = ELEMENT_NODE \<and> mt sel e}"
proof (induction ns arbitrary: w)
  case Nil
  show ?case by simp
next
  case (Cons n ns)
  obtain es where es: "calls (world_of (visit_node mt sel stop n w)) = calls w @ es"
      "set es \<subseteq> {e \<in> set (n # descendants n). nodeType e = ELEMENT_NODE \<and> mt sel e}"
    using visit_node_reports by blast
  show ?case
  proof (cases "visit_node mt sel stop n w")
    case (Return w')
    with es show ?thesis by auto
  next
    case (Continue w')
    obtain fs where fs: "calls (world_of (visit_nodes mt sel stop ns w')) = calls w' @ fs"
      "set fs \<subseteq> {e \<in> set (concat (map (\<lambda>n. n # descendants n) ns)).
                       nodeType e = ELEMENT_NODE \<and> mt sel e}"
      using Cons.IH by blast
    from Continue es fs have "calls (world_of (visit_nodes mt sel stop (n # ns) w)) = calls w @ (es @ fs)"
      by simp
    moreover from es fs have "set (es @ fs) \<subseteq> {e \<in> set (concat (map (\<lambda>n. n # descendants n) (n # ns))).
                       nodeType e = ELEMENT_NODE \<and> mt sel e}"
      by auto
    ultimately show ?thesis by blast
  qed
qed

lemma visit_nodes_pending:
  "pending w = [] \<Longrightarrow> pending (world_of (visit_nodes mt sel stop ns w)) = []"
proof (induction ns arbitrary: w)
  case Nil
  then show ?case by simp
next
  case (Cons n ns)
  from Cons.prems have "pending (world_of (visit_node mt sel stop n w)) = []"
    by (rule visit_node_pending)
  with Cons.IH show ?case
    by (cases "visit_node mt sel stop n w") simp_all
qed

lemma observer_callback_reports:
  "\<exists>es. calls (observer_callback mt sel stop ms w) = calls w @ es
        \<and> set es \<subseteq> set (batch_matches mt sel ms)"
proof (induction ms arbitrary: w)
  case Nil
  show ?case by simp
next
  case (Cons m ms)
  obtain es where es: "calls (world_of (visit_nodes mt sel stop (addedNodes m) w)) = calls w @ es"
      "set es \<subseteq> {e \<in> set (concat (map (\<lambda>n. n # descendants n) (addedNodes m))).
                       nodeType e = ELEMENT_NODE \<and> mt sel e}"
    using visit_nodes_reports by blast
  then have sub: "set es \<subseteq> set (batch_matches mt sel (m # ms))"
    by (auto simp: batch_matches_def inserted_nodes_Cons)
  show ?case
  proof (cases "visit_nodes mt sel stop (addedNodes m) w")
    case (Return w')
    with es sub show ?thesis
      unfolding observer_callback.simps guard_redundant by auto
  next
    case (Continue w1)
    have step: "\<exists>fs. calls (observer_callback mt sel stop (m # ms) w) = calls w1 @ fs
        \<and> set fs \<subseteq> set (batch_matches mt sel ms)"
    proof (cases "stop \<and> pending w1 = []")
      case True
      with Continue show ?thesis
        unfolding observer_callback.simps guard_redundant
        by (simp add: takeRecords_def)
    next
      case False
      then consider "\<not> stop" | "stop" "pending w1 \<noteq> []" by blast
      then show ?thesis
      proof cases
        case 1
        with Continue Cons.IH [of w1] show ?thesis
          unfolding observer_callback.simps guard_redundant by simp
      next
        case 2
        with Continue Cons.IH [of "w1\<lparr>pending := []\<rparr>"] show ?thesis
          unfolding observer_callback.simps guard_redundant
          by (simp add: takeRecords_def)
      qed
    qed
    then obtain fs where fs: "calls (observer_callback mt sel stop (m # ms) w) = calls w1 @ fs"
      "set fs \<subseteq> set (batch_matches mt sel ms)" by blast
    from Continue es fs have "calls (observer_callback mt sel stop (m # ms) w) = calls w @ (es @ fs)"
      by simp
    moreover from sub fs have "set (es @ fs) \<subseteq> set (batch_matches mt sel (m # ms))"
      by (auto simp: batch_matches_def inserted_nodes_Cons)
    ultimately show ?thesis by blast
  qed
qed

lemma observer_callback_pending:
  "pending w = [] \<Longrightarrow> pending (observer_callback mt sel stop ms w) = []"
proof (induction ms arbitrary: w)
  case Nil
  then show ?case by simp
next
  case (Cons m ms)
  from Cons.prems have p: "pending (world_of (visit_nodes mt sel stop (addedNodes m) w)) = []"
    by (rule visit_nodes_pending)
  show ?case
  proof (cases "visit_nodes mt sel stop (addedNodes m) w")
    case (Return w')
    with p show ?thesis
      unfolding observer_callback.simps guard_redundant by simp
  next
    case (Continue w1)
    with p have p1: "pending w1 = []" by simp
    show ?thesis
    proof (cases stop)
      case True
      with Continue p1 show ?thesis
        unfolding observer_callback.simps guard_redundant
        by (simp add: takeRecords_def)
    next
      case False
      with Continue Cons.IH [OF p1] show ?thesis
        unfolding observer_callback.simps guard_redundant by simp
    qed
  qed
qed

lemma batch_matches_subset: "set (batch_matches mt sel ms) \<subseteq> set (inserted_nodes ms)"
  by (auto simp: batch_matches_def)

lemma host_step_reports:
  "set (calls (host_step mt sel stop w ev))
     \<union> set (inserted_nodes (pending (host_step mt sel stop w ev)))
   \<subseteq> set (calls w) \<union> set (inserted_nodes (pending w)) \<union> set (inserted_nodes (records_of [ev]))"
proof (cases ev)
  case (Mutated m)
  then show ?thesis
    by (auto simp: queue_record_def inserted_nodes_append)
next
  case Notify
  show ?thesis
  proof (cases "pending w = []")
    case True
    with Notify show ?thesis by (simp add: notify_def)
  next
    case False
    obtain es where es:
      "calls (observer_callback mt sel stop (pending w) (w\<lparr>pending := []\<rparr>)) = calls w @ es"
      "set es \<subseteq> set (batch_matches mt sel (pending w))"
      using observer_callback_reports [of mt sel stop "pending w" "w\<lparr>pending := []\<rparr>"] by auto
    have "pending (observer_callback mt sel stop (pending w) (w\<lparr>pending := []\<rparr>)) = []"
      by (rule observer_callback_pending) simp
    with Notify False es batch_matches_subset [of mt sel "pending w"] show ?thesis
      by (auto simp: notify_def inserted_nodes_def)
  qed
next
  case Cancel
  then show ?thesis by (simp add: disconnect_def inserted_nodes_def)
qed

lemma records_of_Cons:
  "set (inserted_nodes (records_of (ev # evs)))
   = set (inserted_nodes (records_of [ev])) \<union> set (inserted_nodes (records_of evs))"
  by (cases ev) (simp_all add: inserted_nodes_Cons inserted_nodes_def)

lemma run_reports:
  "set (calls (run mt sel stop w evs)) \<union> set (inserted_nodes (pending (run mt sel stop w evs)))
   \<subseteq> set (calls w) \<union> set (inserted_nodes (pending w)) \<union> set (inserted_nodes (records_of evs))"
proof (induction evs arbitrary: w)
  case Nil
  show ?case by (simp add: run_def)
next
  case (Cons ev evs)
  have r: "run mt sel stop w (ev # evs) = run mt sel stop (host_step mt sel stop w ev) evs"
    by (simp add: run_def)
  from Cons.IH [of "host_step mt sel stop w ev"] host_step_reports [of mt sel stop w ev]
    records_of_Cons [of ev evs]
  show ?case
    unfolding r by blast
qed

lemma visit_node_non_element:
  "nodeType n \<noteq> ELEMENT_NODE \<Longrightarrow> visit_node mt sel stop n w = Continue w"
  by (simp add: visit_node_def)

lemma visit_nodes_filter:
  "visit_nodes mt sel stop (filter (\<lambda>n. nodeType n = ELEMENT_NODE) ns) w
   = visit_nodes mt sel stop ns w"
proof (induction ns arbitrary: w)
  case Nil
  show ?case by simp
next
  case (Cons n ns)
  show ?case
  proof (cases "nodeType n = ELEMENT_NODE")
    case True
    with Cons.IH show ?thesis by (simp split: flow.splits)
  next
    case False
    with Cons.IH show ?thesis by (simp add: visit_node_non_element)
  qed
qed

lemma addedNodes_drop_non_elements:
  "addedNodes (drop_non_elements m) = filter (\<lambda>n. nodeType n = ELEMENT_NODE) (addedNodes m)"
  by (cases m) simp_all

lemma observer_callback_Cons:
  "observer_callback mt sel stop (m # ms) w =
     (case visit_nodes mt sel stop (addedNodes m) w of
        Return w' \<Rightarrow> w'
      | Continue w1 \<Rightarrow>
          if stop then
            (if pending w1 = [] then w1\<lparr>pending := []\<rparr>
             else observer_callback mt sel stop ms (w1\<lparr>pending := []\<rparr>))
          else observer_callback mt sel stop ms w1)"
  unfolding observer_callback.simps guard_redundant
  by (simp add: takeRecords_def split: flow.splits)

lemma observer_callback_drop_non_elements:
  "observer_callback mt sel stop (map drop_non_elements batch) w
   = observer_callback mt sel stop batch w"
proof (induction batch arbitrary: w)
  case Nil
  show ?case by simp
next
  case (Cons m ms)
  from Cons.IH show ?case
    by (cases stop)
       (simp_all add: observer_callback_Cons addedNodes_drop_non_elements visit_nodes_filter
          del: observer_callback.simps split: flow.splits)
qed

text \<open>
  Claim C10. With \<open>stopOnFirstFind\<close> set or unset: an added node that is not an element
  (a text or a comment node) leaves the state as it is and the loop goes on; the handler
  does the same on a batch as on the batch stripped of such nodes; and every node the
  handler invokes the callback with is an element.
\<close>

theorem non_element_nodes_skipped:
  "(nodeType n \<noteq> ELEMENT_NODE \<longrightarrow> visit_node mt sel stop n w = Continue w)
   \<and> observer_callback mt sel stop (map drop_non_elements batch) w
       = observer_callback mt sel stop batch w
   \<and> (\<exists>es. calls (observer_callback mt sel stop batch w) = calls w @ es
          \<and> (\<forall>e\<in>set es. nodeType e = ELEMENT_NODE))"
proof -
  obtain es where es: "calls (observer_callback mt sel stop batch w) = calls w @ es"
      "set es \<subseteq> set (batch_matches mt sel batch)"
    using observer_callback_reports by blast
  then have "\<forall>e\<in>set es. nodeType e = ELEMENT_NODE"
    by (auto simp: batch_matches_def)
  with es show ?thesis
    by (auto simp: visit_node_non_element observer_callback_drop_non_elements)
qed

theorem non_element_nodes_skipped_witness:
  "nodeType (Text ''.item'') \<noteq> ELEMENT_NODE
   \<and> visit_node simple_matches ''.item'' True (Text ''.item'') continuous_session
       = Continue continuous_session
   \<and> observer_callback simple_matches ''.item'' True
        [ChildListRecord [Text ''a'', Comment ''b''] [],
         ChildListRecord [Comment ''c'', item_a, Text ''d'', item_b] []] continuous_session
     = observer_callback simple_matches ''.item'' True
        [ChildListRecord [] [], ChildListRecord [item_a, item_b] []] continuous_session
   \<and> calls (observer_callback simple_matches ''.item'' False
        [ChildListRecord [Text ''a'', Comment ''b''] [],
         ChildListRecord [Comment ''c'', item_a, Text ''d'', item_b] []] continuous_session)
     = [item_a, item_b]"
proof -
  have c: "calls (observer_callback simple_matches ''.item'' False
        [ChildListRecord [Text ''a'', Comment ''b''] [],
         ChildListRecord [Comment ''c'', item_a, Text ''d'', item_b] []] continuous_session)
     = [item_a, item_b]"
    by (simp add: continuous_session_def empty_root_def start_def observe_def visit_node_def
        ELEMENT_NODE_def item_a_def item_b_def querySelectorAll_def callback_def)
  have d: "map drop_non_elements [ChildListRecord [Text ''a'', Comment ''b''] [],
         ChildListRecord [Comment ''c'', item_a, Text ''d'', item_b] []]
       = [ChildListRecord [] [], ChildListRecord [item_a, item_b] []]"
    by (simp add: ELEMENT_NODE_def item_a_def item_b_def)
  have n: "nodeType (Text ''.item'') \<noteq> ELEMENT_NODE"
    by (simp add: ELEMENT_NODE_def)
  note t = non_element_nodes_skipped [of "Text ''.item''" simple_matches "''.item''" True
      continuous_session "[ChildListRecord [Text ''a'', Comment ''b''] [],
         ChildListRecord [Comment ''c'', item_a, Text ''d'', item_b] []]"]
  from t n have v: "visit_node simple_matches ''.item'' True (Text ''.item'') continuous_session
       = Continue continuous_session"
    by blast
  from t have "observer_callback simple_matches ''.item'' True
        [ChildListRecord [] [], ChildListRecord [item_a, item_b] []] continuous_session
     = observer_callback simple_matches ''.item'' True
        [ChildListRecord [Text ''a'', Comment ''b''] [],
         ChildListRecord [Comment ''c'', item_a, Text ''d'', item_b] []] continuous_session"
    unfolding d by blast
  with n v c show ?thesis by (simp only: simp_thms)
qed

text \<open>
  Claim C9. With \<open>stopOnFirstFind\<close> unset, starting a watch invokes the callback for
  nothing, whatever the root holds at that time, and returns the observer for an element
  root. Whatever mutations, notifications and cancellations follow, every element the
  callback is invoked with is a node some record of the session added, or a descendant of
  one: an element present at the start is reported only when it is inserted again.
\<close>

theorem continuous_watch_skips_existing:
  assumes "pending w = []"
  shows "calls (snd (onNewElement mt targetNode sel False w)) = calls w
    \<and> (instanceof_HTMLElement targetNode \<longrightarrow>
         fst (onNewElement mt targetNode sel False w) = Some MutationObserver)
    \<and> set (calls (run mt sel False (snd (onNewElement mt targetNode sel False w)) evs))
        \<subseteq> set (calls w) \<union> set (inserted_nodes (records_of evs))"
proof -
  have a: "calls (snd (onNewElement mt targetNode sel False w)) = calls w
      \<and> pending (snd (onNewElement mt targetNode sel False w)) = pending w"
    by (cases "(mt, targetNode, sel, False, w)" rule: onNewElement.cases)
       (simp_all add: observe_def)
  have b: "instanceof_HTMLElement targetNode \<longrightarrow>
         fst (onNewElement mt targetNode sel False w) = Some MutationObserver"
    by (cases "(mt, targetNode, sel, False, w)" rule: onNewElement.cases) simp_all
  from run_reports [of mt sel False "snd (onNewElement mt targetNode sel False w)" evs] a assms
  have "set (calls (run mt sel False (snd (onNewElement mt targetNode sel False w)) evs))
        \<subseteq> set (calls w) \<union> set (inserted_nodes (records_of evs))"
    by (auto simp: inserted_nodes_def)
  with a b show ?thesis by blast
qed

theorem continuous_watch_skips_existing_witness:
  "pending start = []
   \<and> querySelector simple_matches ''.item'' root_with_item = Some item_a
   \<and> calls (snd (onNewElement simple_matches (NodeRef root_with_item True) ''.item'' False start))
       = calls start
   \<and> fst (onNewElement simple_matches (NodeRef root_with_item True) ''.item'' False start)
       = Some MutationObserver
   \<and> calls (run simple_matches ''.item'' False
        (snd (onNewElement simple_matches (NodeRef root_with_item True) ''.item'' False start))
        [Mutated (ChildListRecord [plain_para] []), Notify,
         Mutated (ChildListRecord [item_b] []), Notify]) = [item_b]"
proof -
  have h: "pending start = []" by (simp add: start_def)
  have q: "querySelector simple_matches ''.item'' root_with_item = Some item_a"
    by (simp add: querySelector_def root_with_item_def item_a_def plain_para_def ELEMENT_NODE_def)
  have i: "instanceof_HTMLElement (NodeRef root_with_item True)"
    by (simp add: root_with_item_def)
  have r: "calls (run simple_matches ''.item'' False
        (snd (onNewElement simple_matches (NodeRef root_with_item True) ''.item'' False start))
        [Mutated (ChildListRecord [plain_para] []), Notify,
         Mutated (ChildListRecord [item_b] []), Notify]) = [item_b]"
    by (simp add: run_def root_with_item_def start_def observe_def queue_record_def notify_def
        plain_para_def item_a_def item_b_def visit_node_def ELEMENT_NODE_def
        querySelectorAll_def callback_def)
  from continuous_watch_skips_existing [OF h, of simple_matches "NodeRef root_with_item True"
      "''.item''" "[Mutated (ChildListRecord [plain_para] []), Notify,
         Mutated (ChildListRecord [item_b] []), Notify]"] h q i r
  show ?thesis by simp
qed

section \<open>Cancelling a watch\<close>

lemma host_step_disconnected:
  "host_step mt sel stop (disconnect w) ev = disconnect w"
  by (cases ev) (simp_all add: queue_record_def notify_def disconnect_def)

lemma run_disconnected:
  "run mt sel stop (disconnect w) evs = disconnect w"
  unfolding run_def
  by (induction evs) (simp_all add: host_step_disconnected)


text \<open>
  Claim C6. Cancelling a watch at any point of its session freezes it: whatever
  mutations, notifications and cancellations follow, the state stays the one the
  cancellation left, so the calls are those made before the cancellation and the observer
  is not registered. Cancelling twice is the same as cancelling once.
\<close>

theorem cancel_stops_callbacks:
  "run mt sel stop w (evs1 @ Cancel # evs2) = disconnect (run mt sel stop w evs1)
   \<and> calls (run mt sel stop w (evs1 @ Cancel # evs2)) = calls (run mt sel stop w evs1)
   \<and> \<not> observing (run mt sel stop w (evs1 @ Cancel # evs2))
   \<and> run mt sel stop w (evs1 @ [Cancel, Cancel]) = run mt sel stop w (evs1 @ [Cancel])
   \<and> disconnect (disconnect w) = disconnect w"
proof -
  have a: "run mt sel stop w (evs1 @ Cancel # evs2) = disconnect (run mt sel stop w evs1)"
    for evs2
  proof -
    have "run mt sel stop w (evs1 @ Cancel # evs2)
          = run mt sel stop (disconnect (run mt sel stop w evs1)) evs2"
      by (simp add: run_def)
    then show ?thesis by (simp add: run_disconnected)
  qed
  have "run mt sel stop w (evs1 @ [Cancel, Cancel]) = run mt sel stop w (evs1 @ [Cancel])"
    using a [of "[Cancel]"] a [of "[]"] by simp
  with a [of evs2] show ?thesis
    by (simp add: disconnect_def)
qed

theorem cancel_stops_callbacks_witness:
  "calls (run simple_matches ''.item'' False continuous_session
      ([Mutated (ChildListRecord [plain_para] []), Notify] @ Cancel #
       [Mutated (ChildListRecord [item_a] []), Notify, Cancel,
        Mutated (ChildListRecord [wrapper] []), Notify])) = []
   \<and> run simple_matches ''.item'' False continuous_session
      ([Mutated (ChildListRecord [plain_para] []), Notify] @ Cancel #
       [Mutated (ChildListRecord [item_a] []), Notify, Cancel,
        Mutated (ChildListRecord [wrapper] []), Notify]) = disconnect continuous_session"
proof -
  have r: "run simple_matches ''.item'' False continuous_session
      [Mutated (ChildListRecord [plain_para] []), Notify] = continuous_session"
    by (simp add: run_def continuous_session_def empty_root_def start_def observe_def
        queue_record_def notify_def plain_para_def visit_node_def ELEMENT_NODE_def
        querySelectorAll_def)
  from cancel_stops_callbacks [of simple_matches "''.item''" False continuous_session
      "[Mutated (ChildListRecord [plain_para] []), Notify]"
      "[Mutated (ChildListRecord [item_a] []), Notify, Cancel,
        Mutated (ChildListRecord [wrapper] []), Notify]"] r
  show ?thesis by (simp add: continuous_session_fields disconnect_def)
qed

section \<open>Waiting for one element\<close>

lemma document_querySelector_Some:
  "document_querySelector mt sel doc = Some e \<Longrightarrow>
   e \<in> set (doc # descendants doc) \<and> nodeType e = ELEMENT_NODE \<and> mt sel e"
  unfolding document_querySelector_def find_Some_iff
  by (metis nth_mem)

lemma document_has_match_iff:
  "document_has_match mt sel doc \<longleftrightarrow> document_querySelector mt sel doc \<noteq> None"
  unfolding document_has_match_def document_querySelector_def list_ex_iff find_None_iff
  by blast

lemma waiter_run_unsubscribed:
  "\<not> subscribed p \<Longrightarrow> waiter_run mt sel p docs = p"
  unfolding waiter_run_def
  by (induction docs) (simp_all add: waiter_notify_def)

lemma waiter_run_no_match:
  "\<forall>d\<in>set docs. \<not> document_has_match mt sel d \<Longrightarrow> waiter_run mt sel p docs = p"
  unfolding waiter_run_def
  by (induction docs) (simp_all add: waiter_notify_def waiter_callback_def document_has_match_iff)

lemma waiter_run_append:
  "waiter_run mt sel p (xs @ ys) = waiter_run mt sel (waiter_run mt sel p xs) ys"
  by (simp add: waiter_run_def)

lemma waiter_run_first_match:
  assumes "\<forall>d\<in>set before. \<not> document_has_match mt sel d"
    and "document_querySelector mt sel d1 = Some e"
    and "subscribed p"
  shows "waiter_run mt sel p (before @ d1 # later)
         = p\<lparr>resolutions := resolutions p @ [Some e], subscribed := False\<rparr>"
proof -
  have "waiter_run mt sel p (before @ d1 # later)
        = waiter_run mt sel (waiter_notify mt sel p d1) later"
    using assms(1) by (simp add: waiter_run_append waiter_run_no_match) (simp add: waiter_run_def)
  also have "waiter_notify mt sel p d1
        = p\<lparr>resolutions := resolutions p @ [Some e], subscribed := False\<rparr>"
    using assms(2,3) by (simp add: waiter_notify_def waiter_callback_def resolve_def)
  finally show ?thesis by (simp add: waiter_run_unsubscribed)
qed

text \<open>
  What the function does, case by case. With a match at call time the promise is
  resolved in the call, once, with the first matching element, and nothing is registered.
  With no match and a body, the observer is registered, stays so while no document has a
  match, and at the first batch whose document has a match the promise is resolved once
  and the observer disconnected. With no match and no body, the promise is rejected with
  the TypeError, nothing is registered, and no later batch changes that.
\<close>

lemma wait_for_element_cases:
  "(document_has_match mt sel doc \<longrightarrow>
      (\<exists>e. document_querySelector mt sel doc = Some e
         \<and> e \<in> set (doc # descendants doc) \<and> nodeType e = ELEMENT_NODE \<and> mt sel e
         \<and> waitForElement mt sel doc
             = \<lparr>resolutions = [Some e], rejections = [], subscribed = False\<rparr>
         \<and> waiter_run mt sel (waitForElement mt sel doc) later
             = \<lparr>resolutions = [Some e], rejections = [], subscribed = False\<rparr>))
   \<and> (\<not> document_has_match mt sel doc \<and> document_body doc \<noteq> None \<longrightarrow>
        waitForElement mt sel doc = \<lparr>resolutions = [], rejections = [], subscribed = True\<rparr>
        \<and> ((\<forall>d\<in>set docs. \<not> document_has_match mt sel d) \<longrightarrow>
             waiter_run mt sel (waitForElement mt sel doc) docs
               = \<lparr>resolutions = [], rejections = [], subscribed = True\<rparr>)
        \<and> ((\<forall>d\<in>set before. \<not> document_has_match mt sel d) \<and> document_has_match mt sel d1 \<longrightarrow>
             (\<exists>e. document_querySelector mt sel d1 = Some e
                \<and> e \<in> set (d1 # descendants d1) \<and> nodeType e = ELEMENT_NODE \<and> mt sel e
                \<and> waiter_run mt sel (waitForElement mt sel doc) (before @ d1 # later)
                    = \<lparr>resolutions = [Some e], rejections = [], subscribed = False\<rparr>)))
   \<and> (\<not> document_has_match mt sel doc \<and> document_body doc = None \<longrightarrow>
        waitForElement mt sel doc
          = \<lparr>resolutions = [], rejections = [TypeError], subscribed = False\<rparr>
        \<and> waiter_run mt sel (waitForElement mt sel doc) docs
          = \<lparr>resolutions = [], rejections = [TypeError], subscribed = False\<rparr>)"
proof (intro conjI impI)
  assume "document_has_match mt sel doc"
  then obtain e where e: "document_querySelector mt sel doc = Some e"
    by (auto simp: document_has_match_iff)
  then have w: "waitForElement mt sel doc
                  = \<lparr>resolutions = [Some e], rejections = [], subscribed = False\<rparr>"
    by (simp add: waitForElement_def resolve_def new_promise_def)
  then have "waiter_run mt sel (waitForElement mt sel doc) later
             = \<lparr>resolutions = [Some e], rejections = [], subscribed = False\<rparr>"
    by (simp add: waiter_run_unsubscribed)
  with e w document_querySelector_Some [OF e]
  show "\<exists>e. document_querySelector mt sel doc = Some e
         \<and> e \<in> set (doc # descendants doc) \<and> nodeType e = ELEMENT_NODE \<and> mt sel e
         \<and> waitForElement mt sel doc
             = \<lparr>resolutions = [Some e], rejections = [], subscribed = False\<rparr>
         \<and> waiter_run mt sel (waitForElement mt sel doc) later
             = \<lparr>resolutions = [Some e], rejections = [], subscribed = False\<rparr>"
    by blast
next
  assume "\<not> document_has_match mt sel doc \<and> document_body doc \<noteq> None"
  then show "waitForElement mt sel doc
               = \<lparr>resolutions = [], rejections = [], subscribed = True\<rparr>"
    by (auto simp: waitForElement_def document_has_match_iff waiter_observe_def
        new_promise_def)
next
  assume "\<not> document_has_match mt sel doc \<and> document_body doc \<noteq> None"
    and "\<forall>d\<in>set docs. \<not> document_has_match mt sel d"
  then show "waiter_run mt sel (waitForElement mt sel doc) docs
               = \<lparr>resolutions = [], rejections = [], subscribed = True\<rparr>"
    by (auto simp: waiter_run_no_match waitForElement_def document_has_match_iff
        waiter_observe_def new_promise_def)
next
  assume n: "\<not> document_has_match mt sel doc \<and> document_body doc \<noteq> None"
    and b: "(\<forall>d\<in>set before. \<not> document_has_match mt sel d) \<and> document_has_match mt sel d1"
  from n have w: "waitForElement mt sel doc
                    = \<lparr>resolutions = [], rejections = [], subscribed = True\<rparr>"
    by (auto simp: waitForElement_def document_has_match_iff waiter_observe_def
        new_promise_def)
  from b obtain e where e: "document_querySelector mt sel d1 = Some e"
    by (auto simp: document_has_match_iff)
  from b e have "waiter_run mt sel (waitForElement mt sel doc) (before @ d1 # later)
                    = \<lparr>resolutions = [Some e], rejections = [], subscribed = False\<rparr>"
    unfolding w by (subst waiter_run_first_match [where e = e]) simp_all
  with e document_querySelector_Some [OF e]
  show "\<exists>e. document_querySelector mt sel d1 = Some e
                \<and> e \<in> set (d1 # descendants d1) \<and> nodeType e = ELEMENT_NODE \<and> mt sel e
                \<and> waiter_run mt sel (waitForElement mt sel doc) (before @ d1 # later)
                    = \<lparr>resolutions = [Some e], rejections = [], subscribed = False\<rparr>"
    by blast
next
  assume n: "\<not> document_has_match mt sel doc \<and> document_body doc = None"
  then show w: "waitForElement mt sel doc
               = \<lparr>resolutions = [], rejections = [TypeError], subscribed = False\<rparr>"
    by (simp add: waitForElement_def document_has_match_iff waiter_observe_def
        new_promise_def reject_def)
  then show "waiter_run mt sel (waitForElement mt sel doc) docs
               = \<lparr>resolutions = [], rejections = [TypeError], subscribed = False\<rparr>"
    by (simp add: waiter_run_unsubscribed)
qed

text \<open>
  Claim C7, at the input where the code departs from it. The function is called on a
  page that has a head and no body yet, and no element matches. The call
  \<open>observer.observe(document.body, ...)\<close> gets null and throws, so the promise is rejected
  with the TypeError and no observer is registered. Two batches follow, the second on a
  page that has a body holding a matching span: the handler is never called, and the
  promise is never resolved. On the same run started from a page with an empty body, the
  promise is resolved with the span.
\<close>

theorem wait_for_element_without_body:
  "document_body page_headless = None
   \<and> document_has_match simple_matches ''.item'' page_headless = False
   \<and> waitForElement simple_matches ''.item'' page_headless
       = \<lparr>resolutions = [], rejections = [TypeError], subscribed = False\<rparr>
   \<and> document_has_match simple_matches ''.item'' page_item = True
   \<and> waiter_run simple_matches ''.item'' (waitForElement simple_matches ''.item'' page_headless)
        [page_plain, page_item]
       = \<lparr>resolutions = [], rejections = [TypeError], subscribed = False\<rparr>
   \<and> waiter_run simple_matches ''.item'' (waitForElement simple_matches ''.item'' page_empty)
        [page_plain, page_item]
       = \<lparr>resolutions = [Some item_a], rejections = [], subscribed = False\<rparr>"
  by (simp add: page_headless_def page_empty_def page_plain_def page_item_def plain_para_def
      item_a_def item_b_def document_has_match_def waitForElement_def
      document_querySelector_def waiter_observe_def new_promise_def reject_def resolve_def
      waiter_run_def waiter_notify_def waiter_callback_def ELEMENT_NODE_def)

section \<open>Effective visibility\<close>

text \<open>
  Claim C8. The function answers true exactly when the element is absent or not
  connected, or its rendered box has zero width or height, or its computed style is
  \<open>display: none\<close>, \<open>visibility: hidden\<close> or \<open>collapse\<close>, or an opacity that parses to 0,
  or its bounding rectangle has zero width or height or lies outside the viewport on one
  side. It answers true for no element, for a detached element, for an element with
  \<open>display: none\<close>, and for an element whose rectangle ends at or above the top of the
  viewport; it answers false for a connected 100 by 100 element inside the viewport whose
  style hides nothing.
\<close>

theorem effectively_hidden_iff:
  "(isElementEffectivelyHidden pf win el \<longleftrightarrow>
      absent_or_detached el
      \<or> (\<exists>e. el = Some e \<and> (zero_rendered_box e \<or> style_hides pf e \<or> rect_outside win e)))
   \<and> isElementEffectivelyHidden pf win None
   \<and> (\<not> isConnected e \<longrightarrow> isElementEffectivelyHidden pf win (Some e))
   \<and> (display (getComputedStyle e) = ''none'' \<longrightarrow> isElementEffectivelyHidden pf win (Some e))
   \<and> (rect_top (getBoundingClientRect e) + rect_height (getBoundingClientRect e) \<le> 0 \<longrightarrow>
        isElementEffectivelyHidden pf win (Some e))
   \<and> (isConnected e \<and> offsetWidth e = 100 \<and> offsetHeight e = 100
        \<and> display (getComputedStyle e) \<noteq> ''none''
        \<and> visibility (getComputedStyle e) \<noteq> ''hidden''
        \<and> visibility (getComputedStyle e) \<noteq> ''collapse''
        \<and> pf (opacity (getComputedStyle e)) \<noteq> Finite 0
        \<and> rect_width (getBoundingClientRect e) = 100
        \<and> rect_height (getBoundingClientRect e) = 100
        \<and> 0 \<le> rect_left (getBoundingClientRect e)
        \<and> rect_left (getBoundingClientRect e) + 100 \<le> of_int (innerWidth win)
        \<and> 0 \<le> rect_top (getBoundingClientRect e)
        \<and> rect_top (getBoundingClientRect e) + 100 \<le> of_int (innerHeight win)
      \<longrightarrow> \<not> isElementEffectivelyHidden pf win (Some e))"
proof -
  have a: "isElementEffectivelyHidden pf win el \<longleftrightarrow>
      absent_or_detached el
      \<or> (\<exists>e. el = Some e \<and> (zero_rendered_box e \<or> style_hides pf e \<or> rect_outside win e))"
    by (cases el)
       (auto simp: isElementEffectivelyHidden_def absent_or_detached_def zero_rendered_box_def
          style_hides_def rect_outside_def Let_def)
  have b: "isElementEffectivelyHidden pf win None"
    by (simp add: isElementEffectivelyHidden_def)
  have c: "\<not> isConnected e \<longrightarrow> isElementEffectivelyHidden pf win (Some e)"
    by (simp add: isElementEffectivelyHidden_def)
  have d: "display (getComputedStyle e) = ''none'' \<longrightarrow> isElementEffectivelyHidden pf win (Some e)"
    by (simp add: isElementEffectivelyHidden_def Let_def)
  have f: "rect_top (getBoundingClientRect e) + rect_height (getBoundingClientRect e) \<le> 0 \<longrightarrow>
        isElementEffectivelyHidden pf win (Some e)"
    by (simp add: isElementEffectivelyHidden_def Let_def)
  have g: "isConnected e \<and> offsetWidth e = 100 \<and> offsetHeight e = 100
        \<and> display (getComputedStyle e) \<noteq> ''none''
        \<and> visibility (getComputedStyle e) \<noteq> ''hidden''
        \<and> visibility (getComputedStyle e) \<noteq> ''collapse''
        \<and> pf (opacity (getComputedStyle e)) \<noteq> Finite 0
        \<and> rect_width (getBoundingClientRect e) = 100
        \<and> rect_height (getBoundingClientRect e) = 100
        \<and> 0 \<le> rect_left (getBoundingClientRect e)
        \<and> rect_left (getBoundingClientRect e) + 100 \<le> of_int (innerWidth win)
        \<and> 0 \<le> rect_top (getBoundingClientRect e)
        \<and> rect_top (getBoundingClientRect e) + 100 \<le> of_int (innerHeight win)
      \<longrightarrow> \<not> isElementEffectivelyHidden pf win (Some e)"
    by (auto simp: isElementEffectivelyHidden_def Let_def)
  from a b c d f g show ?thesis by (simp only: simp_thms)
qed

theorem effectively_hidden_iff_witness:
  "isElementEffectivelyHidden parseFloat_decimal viewport None
   \<and> \<not> isConnected detached_box
   \<and> isElementEffectivelyHidden parseFloat_decimal viewport (Some detached_box)
   \<and> display (getComputedStyle undisplayed_box) = ''none''
   \<and> isElementEffectivelyHidden parseFloat_decimal viewport (Some undisplayed_box)
   \<and> rect_top (getBoundingClientRect box_above_viewport)
        + rect_height (getBoundingClientRect box_above_viewport) \<le> 0
   \<and> isElementEffectivelyHidden parseFloat_decimal viewport (Some box_above_viewport)
   \<and> parseFloat_decimal (opacity (getComputedStyle visible_box)) = Finite 1
   \<and> \<not> isElementEffectivelyHidden parseFloat_decimal viewport (Some visible_box)"
proof -
  have h1: "\<not> isConnected detached_box"
    by (simp add: detached_box_def)
  have h2: "display (getComputedStyle undisplayed_box) = ''none''"
    by (simp add: undisplayed_box_def)
  have h3: "rect_top (getBoundingClientRect box_above_viewport)
        + rect_height (getBoundingClientRect box_above_viewport) \<le> 0"
    by (simp add: box_above_viewport_def)
  have o: "parseFloat_decimal (opacity (getComputedStyle visible_box)) = Finite 1"
    by (simp add: visible_box_def default_style_def parseFloat_decimal_def
        isStrWhiteSpaceChar_def isDecimalDigit_def digits_value_def exponent_value_def)
  have h4: "isConnected visible_box \<and> offsetWidth visible_box = 100
        \<and> offsetHeight visible_box = 100
        \<and> display (getComputedStyle visible_box) \<noteq> ''none''
        \<and> visibility (getComputedStyle visible_box) \<noteq> ''hidden''
        \<and> visibility (getComputedStyle visible_box) \<noteq> ''collapse''
        \<and> parseFloat_decimal (opacity (getComputedStyle visible_box)) \<noteq> Finite 0
        \<and> rect_width (getBoundingClientRect visible_box) = 100
        \<and> rect_height (getBoundingClientRect visible_box) = 100
        \<and> 0 \<le> rect_left (getBoundingClientRect visible_box)
        \<and> rect_left (getBoundingClientRect visible_box) + 100 \<le> of_int (innerWidth viewport)
        \<and> 0 \<le> rect_top (getBoundingClientRect visible_box)
        \<and> rect_top (getBoundingClientRect visible_box) + 100 \<le> of_int (innerHeight viewport)"
    unfolding o by (simp add: visible_box_def default_style_def viewport_def)
  from effectively_hidden_iff [of parseFloat_decimal viewport None detached_box] h1
  have a: "isElementEffectivelyHidden parseFloat_decimal viewport None"
    and b: "isElementEffectivelyHidden parseFloat_decimal viewport (Some detached_box)"
    by blast+
  from effectively_hidden_iff [of parseFloat_decimal viewport None undisplayed_box] h2
  have c: "isElementEffectivelyHidden parseFloat_decimal viewport (Some undisplayed_box)"
    by blast
  from effectively_hidden_iff [of parseFloat_decimal viewport None box_above_viewport] h3
  have d: "isElementEffectivelyHidden parseFloat_decimal viewport (Some box_above_viewport)"
    by blast
  from effectively_hidden_iff [of parseFloat_decimal viewport None visible_box] h4
  have e: "\<not> isElementEffectivelyHidden parseFloat_decimal viewport (Some visible_box)"
    by blast
  from a h1 b h2 c h3 d o e show ?thesis by (simp only: simp_thms)
qed

end
